theory Spec2Isabelle
  imports Main
begin

section \<open>JavaScript values used by the action\<close>

text \<open>
  The action is a single file, \<^verbatim>\<open>index.js\<close>. Strings are modelled as \<^typ>\<open>string\<close>;
  a value that may be \<^verbatim>\<open>null\<close> or \<^verbatim>\<open>undefined\<close> is a \<^typ>\<open>string option\<close>.
  Something thrown is a value: \<^verbatim>\<open>throw('text')\<close> throws a string primitive, every
  other exception is an \<^verbatim>\<open>Error\<close> object that carries a message.
\<close>

datatype js_thrown = ThrownString string | ThrownError string

text \<open>\<^verbatim>\<open>error.message\<close>: a string primitive has no such property, the read gives
  \<^verbatim>\<open>undefined\<close>.\<close>

fun message :: "js_thrown \<Rightarrow> string option" where
  "message (ThrownString s) = None"
| "message (ThrownError m) = Some m"

text \<open>Truthiness of an input value: \<^verbatim>\<open>null\<close>, \<^verbatim>\<open>undefined\<close> and the empty string
  are falsy.\<close>

fun truthy :: "string option \<Rightarrow> bool" where
  "truthy None = False"
| "truthy (Some s) = (s \<noteq> [])"

text \<open>\<^verbatim>\<open>String.prototype.startsWith\<close> and \<^verbatim>\<open>String.prototype.indexOf\<close>.\<close>

definition startsWith :: "string \<Rightarrow> string \<Rightarrow> bool" where
  "startsWith s p = (take (length p) s = p)"

fun indexOf_from :: "string \<Rightarrow> string \<Rightarrow> int \<Rightarrow> int" where
  "indexOf_from [] p i = (if p = [] then i else - 1)"
| "indexOf_from (c # cs) p i =
     (if startsWith (c # cs) p then i else indexOf_from cs p (i + 1))"

definition indexOf :: "string \<Rightarrow> string \<Rightarrow> int" where
  "indexOf s p = indexOf_from s p 0"

text \<open>
  A \<^verbatim>\<open>RegExp\<close> built by \<^verbatim>\<open>new RegExp(regex)\<close> has no flags, so it keeps no
  position between calls and is determined by what one execution on a string gives:
  \<^verbatim>\<open>null\<close> (\<open>None\<close>) or a match array. Of the match array the action reads only
  \<^verbatim>\<open>.groups\<close>, which is \<^verbatim>\<open>undefined\<close> when the pattern has no named group, and then
  \<^verbatim>\<open>.groups.group\<close>, which is \<^verbatim>\<open>undefined\<close> when no group of that name took part in
  the match.
\<close>

datatype match_groups = GroupsUndefined | Groups "string option"

type_synonym regexp = "string \<Rightarrow> match_groups option"

definition test :: "regexp \<Rightarrow> string \<Rightarrow> bool" where
  "test pattern s = (pattern s \<noteq> None)"

definition match :: "string \<Rightarrow> regexp \<Rightarrow> match_groups option" where
  "match s pattern = pattern s"

section \<open>Config Resolver: \<^verbatim>\<open>parseInputs\<close>\<close>

text \<open>
  What \<^verbatim>\<open>parseInputs\<close> reads from outside the file: the action inputs
  (\<^verbatim>\<open>core.getInput\<close>), the repository of the workflow (\<^verbatim>\<open>github.context.repo\<close>, which
  throws when the environment names none), the cutoff \<^verbatim>\<open>moment().subtract(maxAge)\<close> and
  the \<^verbatim>\<open>RegExp\<close> constructor, which throws on a pattern that does not parse.

  The duration parser behind \<^verbatim>\<open>moment().subtract(maxAge)\<close> is not part of
  \<^verbatim>\<open>index.js\<close>, which hands it the \<^verbatim>\<open>max-age\<close> input as it is read, with no check of
  its own. \<open>moment_subtract\<close> gives for the input either the cutoff, an instant in
  milliseconds, or what the parser throws.
\<close>

record env =
  getInput :: "string \<Rightarrow> string option"
  context_repo :: "js_thrown + string \<times> string"
  moment_subtract :: "string option \<Rightarrow> js_thrown + int"
  RegExp_new :: "string option \<Rightarrow> js_thrown + regexp"

text \<open>The variables the predicate \<^verbatim>\<open>checkReleaseName\<close> closes over; the array
  \<^verbatim>\<open>foundReleaseGroups\<close> it mutates is passed and returned.\<close>

record closure =
  prefix :: "string option"
  regex :: "string option"
  keepLatestReleases :: bool
  pattern :: regexp

type_synonym found = "string option list"

text \<open>\<^verbatim>\<open>checkReleaseName\<close> of the first listing (one function with early returns).\<close>

definition checkReleaseName :: "closure \<Rightarrow> found \<Rightarrow> string \<Rightarrow> js_thrown + bool \<times> found" where
  "checkReleaseName c foundReleaseGroups releaseName =
     (if truthy (prefix c) \<and> \<not> startsWith releaseName (case prefix c of Some p \<Rightarrow> p | None \<Rightarrow> [])
      then Inr (False, foundReleaseGroups)
      else if truthy (regex c) then
        (if \<not> test (pattern c) releaseName then Inr (False, foundReleaseGroups)
         else if keepLatestReleases c then
           (case match releaseName (pattern c) of
              None \<Rightarrow> Inl (ThrownError ''Cannot read properties of null (reading 'groups')'')
            | Some GroupsUndefined \<Rightarrow>
                Inl (ThrownError ''Cannot read properties of undefined (reading 'group')'')
            | Some (Groups releaseGroup) \<Rightarrow>
                (if releaseGroup \<notin> set foundReleaseGroups
                 then Inr (False, foundReleaseGroups @ [releaseGroup])
                 else Inr (True, foundReleaseGroups)))
         else Inr (True, foundReleaseGroups))
      else Inr (True, foundReleaseGroups))"

text \<open>
  The second listing of \<^verbatim>\<open>parseInputs\<close> in the same file composes the predicate from
  three functions joined by \<^verbatim>\<open>&&\<close>. There \<^verbatim>\<open>pattern\<close> is assigned only when a regex is
  given; matching against \<^verbatim>\<open>undefined\<close> matches the empty pattern, whose match array
  has no \<^verbatim>\<open>groups\<close>.
\<close>

definition checkReleaseNameAgainstPrefix :: "string option \<Rightarrow> string \<Rightarrow> bool" where
  "checkReleaseNameAgainstPrefix pre releaseName =
     (case pre of Some p \<Rightarrow> (if p \<noteq> [] then startsWith releaseName p else True) | None \<Rightarrow> True)"

definition checkReleaseNameAgainstRegex :: "string option \<Rightarrow> regexp \<Rightarrow> string \<Rightarrow> bool" where
  "checkReleaseNameAgainstRegex re pat releaseName =
     (if truthy re then test pat releaseName else True)"

definition checkReleaseGroups ::
  "bool \<Rightarrow> regexp option \<Rightarrow> found \<Rightarrow> string \<Rightarrow> js_thrown + bool \<times> found" where
  "checkReleaseGroups keep pat foundReleaseGroups releaseName =
     (if keep then
        (case (case pat of Some p \<Rightarrow> match releaseName p | None \<Rightarrow> Some GroupsUndefined) of
           None \<Rightarrow> Inl (ThrownError ''Cannot read properties of null (reading 'groups')'')
         | Some GroupsUndefined \<Rightarrow>
             Inl (ThrownError ''Cannot read properties of undefined (reading 'group')'')
         | Some (Groups releaseGroup) \<Rightarrow>
             (if releaseGroup \<in> set foundReleaseGroups then Inr (True, foundReleaseGroups)
              else Inr (False, foundReleaseGroups @ [releaseGroup])))
      else Inr (True, foundReleaseGroups))"

definition checkReleaseName2 :: "closure \<Rightarrow> found \<Rightarrow> string \<Rightarrow> js_thrown + bool \<times> found" where
  "checkReleaseName2 c foundReleaseGroups releaseName =
     (if \<not> checkReleaseNameAgainstPrefix (prefix c) releaseName then Inr (False, foundReleaseGroups)
      else if \<not> checkReleaseNameAgainstRegex (regex c) (pattern c) releaseName
      then Inr (False, foundReleaseGroups)
      else checkReleaseGroups (keepLatestReleases c)
             (if truthy (regex c) then Some (pattern c) else None) foundReleaseGroups releaseName)"

text \<open>
  The object \<^verbatim>\<open>parseInputs\<close> returns. The predicate is a function of its own state,
  which the caller threads through the calls; \<^verbatim>\<open>fetchAndFilterReleases\<close> accepts any
  such predicate (the tests pass \<^verbatim>\<open>() => true\<close>). \<^verbatim>\<open>dateCutoff\<close> is an instant in
  milliseconds.
\<close>

record 's inputs =
  checkReleaseName_in :: "'s \<Rightarrow> string \<Rightarrow> js_thrown + bool \<times> 's"
  dateCutoff :: int
  deleteTags :: bool
  dryRun :: bool
  token :: "string option"
  owner :: string
  repo :: string

text \<open>
  \<^verbatim>\<open>parseInputs\<close> of the first listing, in the order of its statements: the inputs are
  read, the repository is read, the keep-latest-releases option is validated, the cutoff
  is computed, the pattern is compiled. The second component of the result is the
  initial \<^verbatim>\<open>foundReleaseGroups\<close>, the empty array.
\<close>

definition parseInputs :: "env \<Rightarrow> js_thrown + found inputs \<times> found" where
  "parseInputs e =
     (let prefix' = getInput e ''prefix'';
          regex' = getInput e ''regex'';
          maxAge = getInput e ''max-age'';
          deleteTags' = (getInput e ''delete-tags'' = Some ''true'');
          keepLatestReleases' = (getInput e ''keep-latest-releases'' = Some ''true'');
          dryRun' = (getInput e ''dry-run'' = Some ''true'');
          token' = getInput e ''token''
      in case context_repo e of
           Inl err \<Rightarrow> Inl err
         | Inr (owner', repo') \<Rightarrow>
             if keepLatestReleases' \<and> \<not> truthy regex' then
               Inl (ThrownString
                 ''When using the keep-latest-releases option, a regex input is required.'')
             else if keepLatestReleases'
                     \<and> indexOf (case regex' of Some r \<Rightarrow> r | None \<Rightarrow> []) ''(?<group>'' = - 1 then
               Inl (ThrownString
                 (''When using the keep-latest-releases option, regex needs to contain ''
                  @ ''a capturing group named '' @ [CHR 0x22] @ ''group'' @ [CHR 0x22] @ ''.''))
             else
               (case moment_subtract e maxAge of
                  Inl err \<Rightarrow> Inl err
                | Inr dateCutoff' \<Rightarrow>
                    (case RegExp_new e regex' of
                       Inl err \<Rightarrow> Inl err
                     | Inr pattern' \<Rightarrow>
                         Inr (\<lparr>checkReleaseName_in =
                                  checkReleaseName
                                    \<lparr>prefix = prefix', regex = regex',
                                     keepLatestReleases = keepLatestReleases',
                                     pattern = pattern'\<rparr>,
                               dateCutoff = dateCutoff', deleteTags = deleteTags',
                               dryRun = dryRun', token = token', owner = owner',
                               repo = repo'\<rparr>,
                              []))))"

section \<open>Release Collector: \<^verbatim>\<open>fetchAndFilterReleases\<close>\<close>

text \<open>
  A release as the listing returns it and the entry the collector keeps of it. Name and
  tag are strings, as in the interface the specification gives for the listing. Dates
  are the instants, in milliseconds, that the date strings denote; \<^verbatim>\<open>published_at\<close>
  may be \<^verbatim>\<open>null\<close>.
\<close>

record release =
  id_rel :: int
  name_rel :: string
  tag_name :: string
  draft :: bool
  published_at :: "int option"
  created_at :: int

record releaseInfo =
  id_info :: int
  name_info :: string
  tag :: string

text \<open>
  The REST client: each call answers with a value or throws. The calls the action makes
  are recorded as events, in the order they are made, together with the calls of the
  predicate and the failure signal \<^verbatim>\<open>core.setFailed\<close>. The log lines of
  \<^verbatim>\<open>core.info\<close> are not recorded.
\<close>

record octokit =
  listReleases :: "string \<Rightarrow> string \<Rightarrow> nat \<Rightarrow> nat \<Rightarrow> js_thrown + release list"
  deleteRelease :: "string \<Rightarrow> string \<Rightarrow> int \<Rightarrow> js_thrown option"
  deleteRef :: "string \<Rightarrow> string \<Rightarrow> string \<Rightarrow> js_thrown option"

datatype event =
    is_ListReleases: ListReleases string string nat nat
  | is_CheckReleaseName: CheckReleaseName string
  | is_DeleteRelease: DeleteRelease string string int
  | is_DeleteRef: DeleteRef string string string
  | is_SetFailed: SetFailed "string option"

definition per_page :: nat where
  "per_page = 100"

text \<open>\<^verbatim>\<open>release.published_at || release.created_at\<close> and \<^verbatim>\<open>dateCutoff.isAfter\<close>.\<close>

definition releaseDate :: "release \<Rightarrow> int" where
  "releaseDate r = (case published_at r of Some d \<Rightarrow> d | None \<Rightarrow> created_at r)"

definition isAfter :: "int \<Rightarrow> int \<Rightarrow> bool" where
  "isAfter cutoff d = (d < cutoff)"

definition toInfo :: "release \<Rightarrow> releaseInfo" where
  "toInfo r = \<lparr>id_info = id_rel r, name_info = name_rel r, tag = tag_name r\<rparr>"

text \<open>
  The \<^verbatim>\<open>for\<close> loop over one page. \<^verbatim>\<open>&&\<close> evaluates left to right and stops at the
  first false operand: a draft never reaches the predicate, and the date is compared
  only after the predicate has answered true.
\<close>

fun forReleases ::
  "'s inputs \<Rightarrow> release list \<Rightarrow> 's \<Rightarrow> releaseInfo list
     \<Rightarrow> event list \<times> (js_thrown + 's \<times> releaseInfo list)" where
  "forReleases inputs [] st releasesToDelete = ([], Inr (st, releasesToDelete))"
| "forReleases inputs (r # rest) st releasesToDelete =
     (if draft r then forReleases inputs rest st releasesToDelete
      else
        (case checkReleaseName_in inputs st (name_rel r) of
           Inl err \<Rightarrow> ([CheckReleaseName (name_rel r)], Inl err)
         | Inr (ok, st') \<Rightarrow>
             (case forReleases inputs rest st'
                     (if ok \<and> isAfter (dateCutoff inputs) (releaseDate r)
                      then releasesToDelete @ [toInfo r] else releasesToDelete) of
                (evs, out) \<Rightarrow> (CheckReleaseName (name_rel r) # evs, out))))"

text \<open>
  The \<^verbatim>\<open>do ... while (hasMore)\<close> loop. Nothing bounds the number of pages, so the
  model carries fuel: \<open>None\<close> means the loop has not come to an end within it.
  Next to \<^verbatim>\<open>releasesToDelete\<close> the result carries the state the predicate is left in.
\<close>

fun doWhile ::
  "nat \<Rightarrow> octokit \<Rightarrow> 's inputs \<Rightarrow> nat \<Rightarrow> 's \<Rightarrow> releaseInfo list
     \<Rightarrow> (event list \<times> (js_thrown + releaseInfo list \<times> 's)) option" where
  "doWhile 0 octo inputs page st releasesToDelete = None"
| "doWhile (Suc fuel) octo inputs page st releasesToDelete =
     (case listReleases octo (owner inputs) (repo inputs) (page + 1) per_page of
        Inl err \<Rightarrow>
          Some ([ListReleases (owner inputs) (repo inputs) (page + 1) per_page], Inl err)
      | Inr releases \<Rightarrow>
          (case forReleases inputs releases st releasesToDelete of
             (evs, Inl err) \<Rightarrow>
               Some (ListReleases (owner inputs) (repo inputs) (page + 1) per_page # evs, Inl err)
           | (evs, Inr (st', releasesToDelete')) \<Rightarrow>
               if length releases = per_page then
                 (case doWhile fuel octo inputs (page + 1) st' releasesToDelete' of
                    None \<Rightarrow> None
                  | Some (evs', out) \<Rightarrow>
                      Some (ListReleases (owner inputs) (repo inputs) (page + 1) per_page
                              # evs @ evs', out))
               else
                 Some (ListReleases (owner inputs) (repo inputs) (page + 1) per_page # evs,
                       Inr (releasesToDelete', st'))))"

definition fetchAndFilterReleases ::
  "nat \<Rightarrow> octokit \<Rightarrow> 's inputs \<Rightarrow> 's
     \<Rightarrow> (event list \<times> (js_thrown + releaseInfo list \<times> 's)) option" where
  "fetchAndFilterReleases fuel octo inputs st = doWhile fuel octo inputs 0 st []"

section \<open>Release Remover: \<^verbatim>\<open>deleteReleases\<close>\<close>

fun deleteReleases ::
  "octokit \<Rightarrow> releaseInfo list \<Rightarrow> 's inputs \<Rightarrow> event list \<times> js_thrown option" where
  "deleteReleases octo [] inputs = ([], None)"
| "deleteReleases octo (info # rest) inputs =
     (if \<not> dryRun inputs then
        (case deleteRelease octo (owner inputs) (repo inputs) (id_info info) of
           Some err \<Rightarrow> ([DeleteRelease (owner inputs) (repo inputs) (id_info info)], Some err)
         | None \<Rightarrow>
             if deleteTags inputs then
               (case deleteRef octo (owner inputs) (repo inputs) (''tags/'' @ tag info) of
                  Some err \<Rightarrow>
                    ([DeleteRelease (owner inputs) (repo inputs) (id_info info),
                      DeleteRef (owner inputs) (repo inputs) (''tags/'' @ tag info)], Some err)
                | None \<Rightarrow>
                    (case deleteReleases octo rest inputs of
                       (evs, out) \<Rightarrow>
                         (DeleteRelease (owner inputs) (repo inputs) (id_info info)
                            # DeleteRef (owner inputs) (repo inputs) (''tags/'' @ tag info)
                            # evs, out)))
             else
               (case deleteReleases octo rest inputs of
                  (evs, out) \<Rightarrow>
                    (DeleteRelease (owner inputs) (repo inputs) (id_info info) # evs, out)))
      else deleteReleases octo rest inputs)"

section \<open>Orchestrator: \<^verbatim>\<open>run\<close>\<close>

text \<open>
  \<^verbatim>\<open>github.getOctokit(inputs.token)\<close> builds the client without a request and may throw.
  Whatever is thrown inside the \<^verbatim>\<open>try\<close> block reaches the one \<^verbatim>\<open>catch\<close>, which
  calls \<^verbatim>\<open>core.setFailed(error.message)\<close>. The result is the sequence of events of the
  run.
\<close>

definition run ::
  "nat \<Rightarrow> env \<Rightarrow> (string option \<Rightarrow> js_thrown + octokit) \<Rightarrow> event list option" where
  "run fuel e getOctokit =
     (case parseInputs e of
        Inl error \<Rightarrow> Some [SetFailed (message error)]
      | Inr (inputs, st) \<Rightarrow>
          (case getOctokit (token inputs) of
             Inl error \<Rightarrow> Some [SetFailed (message error)]
           | Inr octo \<Rightarrow>
               (case fetchAndFilterReleases fuel octo inputs st of
                  None \<Rightarrow> None
                | Some (evs, Inl error) \<Rightarrow> Some (evs @ [SetFailed (message error)])
                | Some (evs, Inr (releasesToDelete, st')) \<Rightarrow>
                    (case deleteReleases octo releasesToDelete inputs of
                       (evs', Some error) \<Rightarrow> Some (evs @ evs' @ [SetFailed (message error)])
                     | (evs', None) \<Rightarrow> Some (evs @ evs')))))"

section \<open>Notions the specification uses\<close>

text \<open>
  One run of a predicate over a sequence of names: the answers in order and the state it
  is left in, or what the first failing call threw.
\<close>

fun verdicts ::
  "('s \<Rightarrow> string \<Rightarrow> js_thrown + bool \<times> 's) \<Rightarrow> 's \<Rightarrow> string list
     \<Rightarrow> js_thrown + bool list \<times> 's" where
  "verdicts f st [] = Inr ([], st)"
| "verdicts f st (n # ns) =
     (case f st n of
        Inl err \<Rightarrow> Inl err
      | Inr (ok, st') \<Rightarrow>
          (case verdicts f st' ns of
             Inl err \<Rightarrow> Inl err
           | Inr (oks, st'') \<Rightarrow> Inr (ok # oks, st'')))"

text \<open>The value of the capture named \<^verbatim>\<open>group\<close> that a pattern extracts from a name.\<close>

definition groupOf :: "regexp \<Rightarrow> string \<Rightarrow> string option" where
  "groupOf pat n = (case pat n of Some (Groups g) \<Rightarrow> g | _ \<Rightarrow> None)"

text \<open>
  The selection the specification describes: of the releases paired with the answers of
  the predicate, those with answer true whose effective date (published, else created)
  is strictly before the cutoff, each as \<^verbatim>\<open>{id, name, tag}\<close>, in the order given.
\<close>

definition selected :: "int \<Rightarrow> release list \<Rightarrow> bool list \<Rightarrow> releaseInfo list" where
  "selected cutoff rs oks =
     map (\<lambda>(r, ok). \<lparr>id_info = id_rel r, name_info = name_rel r, tag = tag_name r\<rparr>)
       (filter (\<lambda>(r, ok). ok \<and> (case published_at r of Some d \<Rightarrow> d | None \<Rightarrow> created_at r) < cutoff)
          (zip rs oks))"

text \<open>
  Whether a pattern text contains a capture group named \<^verbatim>\<open>group\<close>, by the grammar of
  patterns: \<^verbatim>\<open>(?<group>\<close> opens one unless the parenthesis is escaped by a backslash
  or stands inside a character class \<^verbatim>\<open>[...]\<close>.
\<close>

fun scanGroup :: "bool \<Rightarrow> bool \<Rightarrow> string \<Rightarrow> bool" where
  "scanGroup escaped inClass [] = False"
| "scanGroup escaped inClass (c # cs) =
     (if escaped then scanGroup False inClass cs
      else if c = CHR 0x5C then scanGroup True inClass cs
      else if inClass then scanGroup False (c \<noteq> CHR '']'') cs
      else if c = CHR ''['' then scanGroup False True cs
      else if startsWith (c # cs) ''(?<group>'' then True
      else scanGroup False False cs)"

definition hasGroupNamedGroup :: "string \<Rightarrow> bool" where
  "hasGroupNamedGroup src = scanGroup False False src"




section \<open>The scenarios of \<^verbatim>\<open>test/index.test.js\<close>\<close>

text \<open>
  The tests stub the surroundings: inputs not set read as \<^verbatim>\<open>undefined\<close>, the
  repository is \<^verbatim>\<open>tester/testing\<close>, ``now'' is 2022-01-31T00:00:00Z, so that a
  \<^verbatim>\<open>max-age\<close> of \<^verbatim>\<open>P1W\<close> gives the cutoff 2022-01-24T00:00:00Z. A scenario fixes the
  inputs given, the pattern its regex compiles to and what computing the cutoff gives.
\<close>

definition now_ms :: int where
  "now_ms = 1643587200000"

definition week_before_now :: int where
  "week_before_now = 1642982400000"

definition stub_env :: "(string \<times> string) list \<Rightarrow> regexp \<Rightarrow> js_thrown + int \<Rightarrow> env" where
  "stub_env given compiled cutoff =
     \<lparr>getInput = map_of given,
      context_repo = Inr (''tester'', ''testing''),
      moment_subtract = (\<lambda>maxAge. cutoff),
      RegExp_new = (\<lambda>src. Inr compiled)\<rparr>"

text \<open>
  The pattern \<^verbatim>\<open>^(?<group>.*)-\d+$\<close>: the name ends in a hyphen and one or more
  digits; the group is what stands before that hyphen and holds no line break.
\<close>

definition group_number_src :: string where
  "group_number_src = ''^(?<group>.*)-'' @ [CHR 0x5C] @ ''d+$''"

definition group_number_pattern :: regexp where
  "group_number_pattern s =
     (let digits = takeWhile (\<lambda>c. c \<in> set ''0123456789'') (rev s);
          before = dropWhile (\<lambda>c. c \<in> set ''0123456789'') (rev s)
      in case before of
           [] \<Rightarrow> None
         | c # g \<Rightarrow>
             if digits \<noteq> [] \<and> c = CHR ''-'' \<and> CHR 0x0A \<notin> set g \<and> CHR 0x0D \<notin> set g
             then Some (Groups (Some (rev g))) else None)"

text \<open>The pattern \<^verbatim>\<open>[(?<group>]\<close>: a character class, it matches a name that holds one
  of its characters and has no group.\<close>

definition class_src :: string where
  "class_src = ''[(?<group>]''"

definition class_pattern :: regexp where
  "class_pattern s = (if \<exists>c \<in> set s. c \<in> set ''(?<group>'' then Some GroupsUndefined else None)"

text \<open>The empty pattern, which \<^verbatim>\<open>new RegExp(undefined)\<close> builds.\<close>

definition empty_pattern :: regexp where
  "empty_pattern s = Some GroupsUndefined"

text \<open>The listing of the group-retention test: \<^verbatim>\<open>develop-2\<close> published 2022-02-25,
  then \<^verbatim>\<open>develop-1\<close> published 2022-01-23; the test sets no tag and no creation date.\<close>

definition develop_2 :: release where
  "develop_2 = \<lparr>id_rel = 2, name_rel = ''develop-2'', tag_name = [], draft = False,
                 published_at = Some 1645747200000, created_at = 0\<rparr>"

definition develop_1 :: release where
  "develop_1 = \<lparr>id_rel = 1, name_rel = ''develop-1'', tag_name = [], draft = False,
                 published_at = Some 1642896000000, created_at = 0\<rparr>"

definition develop_3 :: release where
  "develop_3 = \<lparr>id_rel = 3, name_rel = ''develop-3'', tag_name = [], draft = True,
                 published_at = None, created_at = 0\<rparr>"

definition develop_octokit :: octokit where
  "develop_octokit =
     \<lparr>listReleases = (\<lambda>ow rp page size. Inr [develop_2, develop_1]),
      deleteRelease = (\<lambda>ow rp i. None),
      deleteRef = (\<lambda>ow rp ref. None)\<rparr>"

text \<open>The same listing headed by a draft \<^verbatim>\<open>develop-3\<close> that has no publication
  date, and the inputs that \<^verbatim>\<open>parseInputs\<close> gives in the group-retention test.\<close>

definition drafted_octokit :: octokit where
  "drafted_octokit =
     \<lparr>listReleases = (\<lambda>ow rp page size. Inr [develop_3, develop_2, develop_1]),
      deleteRelease = (\<lambda>ow rp i. None),
      deleteRef = (\<lambda>ow rp ref. None)\<rparr>"

definition develop_inputs :: "found inputs" where
  "develop_inputs =
     \<lparr>checkReleaseName_in =
        checkReleaseName \<lparr>prefix = None, regex = Some group_number_src,
                          keepLatestReleases = True, pattern = group_number_pattern\<rparr>,
      dateCutoff = week_before_now, deleteTags = False, dryRun = False, token = None,
      owner = ''tester'', repo = ''testing''\<rparr>"



text \<open>
  The pagination test: 261 releases \<^verbatim>\<open>release-0\<close> ... \<^verbatim>\<open>release-260\<close> published
  2022-01-01, a hundred to a page; the stub answers pages 1, 2 and 3 only, and the
  predicate is \<^verbatim>\<open>() => true\<close>.
\<close>

fun decimal :: "nat \<Rightarrow> string" where
  "decimal n =
     (if n < 10 then [''0123456789'' ! n]
      else decimal (n div 10) @ [''0123456789'' ! (n mod 10)])"

declare decimal.simps [simp del]

definition release_n :: "nat \<Rightarrow> release" where
  "release_n n = \<lparr>id_rel = int n, name_rel = ''release-'' @ decimal n, tag_name = [],
                   draft = False, published_at = Some 1640995200000, created_at = 0\<rparr>"

definition paged_octokit :: octokit where
  "paged_octokit =
     \<lparr>listReleases =
        (\<lambda>ow rp page size.
           if page = 1 then Inr (map release_n [0..<100])
           else if page = 2 then Inr (map release_n [100..<200])
           else if page = 3 then Inr (map release_n [200..<261])
           else Inl (ThrownError ''Cannot read properties of undefined (reading 'data')'')),
      deleteRelease = (\<lambda>ow rp i. None),
      deleteRef = (\<lambda>ow rp ref. None)\<rparr>"

definition paged_inputs :: "unit inputs" where
  "paged_inputs =
     \<lparr>checkReleaseName_in = (\<lambda>st n. Inr (True, st)), dateCutoff = now_ms,
      deleteTags = False, dryRun = False, token = None,
      owner = ''tester'', repo = ''testing''\<rparr>"

section \<open>The predicate \<^verbatim>\<open>checkReleaseName\<close>\<close>

lemma prefix_check_eq:
  "checkReleaseNameAgainstPrefix p n
     = (\<not> (truthy p \<and> \<not> startsWith n (case p of Some q \<Rightarrow> q | None \<Rightarrow> [])))"
  by (cases p) (auto simp: checkReleaseNameAgainstPrefix_def)

lemma prefix_check_iff:
  "checkReleaseNameAgainstPrefix p n = (truthy p \<longrightarrow> (\<exists>q. p = Some q \<and> startsWith n q))"
  by (cases p) (auto simp: checkReleaseNameAgainstPrefix_def)

lemma regex_check_iff:
  "checkReleaseNameAgainstRegex re pat n = (truthy re \<longrightarrow> test pat n)"
  by (simp add: checkReleaseNameAgainstRegex_def)

lemma check_no_keep:
  "\<not> keepLatestReleases c \<Longrightarrow>
   checkReleaseName c fs n
     = Inr (checkReleaseNameAgainstPrefix (prefix c) n
            \<and> checkReleaseNameAgainstRegex (regex c) (pattern c) n, fs)"
  by (simp add: checkReleaseName_def prefix_check_eq checkReleaseNameAgainstRegex_def)

lemma check_rejected:
  "\<not> checkReleaseNameAgainstPrefix (prefix c) n
     \<or> \<not> checkReleaseNameAgainstRegex (regex c) (pattern c) n \<Longrightarrow>
   checkReleaseName c fs n = Inr (False, fs)"
  by (auto simp: checkReleaseName_def prefix_check_eq checkReleaseNameAgainstRegex_def
      split: if_splits)

lemma check2_rejected:
  "\<not> checkReleaseNameAgainstPrefix (prefix c) n
     \<or> \<not> checkReleaseNameAgainstRegex (regex c) (pattern c) n \<Longrightarrow>
   checkReleaseName2 c fs n = Inr (False, fs)"
  by (auto simp: checkReleaseName2_def)

lemma check_group:
  "keepLatestReleases c \<Longrightarrow> truthy (regex c) \<Longrightarrow>
   checkReleaseNameAgainstPrefix (prefix c) n \<Longrightarrow> pattern c n = Some (Groups g) \<Longrightarrow>
   checkReleaseName c fs n = (if g \<in> set fs then Inr (True, fs) else Inr (False, fs @ [g]))"
  by (simp add: checkReleaseName_def prefix_check_eq test_def match_def)

lemma check2_eq_check:
  "keepLatestReleases c \<longrightarrow> truthy (regex c) \<Longrightarrow>
   checkReleaseName2 c fs n = checkReleaseName c fs n"
  by (auto simp: checkReleaseName2_def checkReleaseName_def checkReleaseGroups_def
      checkReleaseNameAgainstRegex_def prefix_check_eq test_def match_def
      split: option.splits match_groups.splits)

lemma check_true_iff:
  "keepLatestReleases c \<Longrightarrow> truthy (regex c) \<Longrightarrow>
   (\<exists>fs'. checkReleaseName c fs n = Inr (True, fs'))
     = (checkReleaseNameAgainstPrefix (prefix c) n
        \<and> checkReleaseNameAgainstRegex (regex c) (pattern c) n
        \<and> (\<exists>g. pattern c n = Some (Groups g) \<and> g \<in> set fs))"
  by (auto simp: checkReleaseName_def checkReleaseNameAgainstRegex_def prefix_check_eq
      test_def match_def split: option.splits match_groups.splits)

lemma check_neither:
  "\<not> truthy (prefix c) \<Longrightarrow> \<not> truthy (regex c) \<Longrightarrow> checkReleaseName c fs n = Inr (True, fs)"
  by (simp add: checkReleaseName_def)

text \<open>
  C9. \<^verbatim>\<open>checkReleaseName\<close> answers true exactly when every active sub-check passes.
  The prefix check is passed when no prefix is configured and otherwise asks that the
  name starts with the prefix; the regex check is passed when no regex is configured and
  otherwise asks that the pattern matches the name. Without keep-latest-releases the
  answer is the conjunction of the two and the state is untouched; with it (and the regex
  it requires) the answer is true exactly when both pass and the group of the name has
  been seen. With neither prefix nor regex every name passes. Both listings agree.
\<close>

theorem checkReleaseName_all_subchecks:
  "(checkReleaseNameAgainstPrefix (prefix c) n
      = (truthy (prefix c) \<longrightarrow> (\<exists>p. prefix c = Some p \<and> startsWith n p)))
   \<and> (checkReleaseNameAgainstRegex (regex c) (pattern c) n
      = (truthy (regex c) \<longrightarrow> test (pattern c) n))
   \<and> (\<not> keepLatestReleases c \<longrightarrow>
        checkReleaseName c fs n
          = Inr (checkReleaseNameAgainstPrefix (prefix c) n
                 \<and> checkReleaseNameAgainstRegex (regex c) (pattern c) n, fs)
        \<and> checkReleaseName2 c fs n = checkReleaseName c fs n)
   \<and> (keepLatestReleases c \<and> truthy (regex c) \<longrightarrow>
        (\<exists>fs'. checkReleaseName c fs n = Inr (True, fs'))
          = (checkReleaseNameAgainstPrefix (prefix c) n
             \<and> checkReleaseNameAgainstRegex (regex c) (pattern c) n
             \<and> (\<exists>g. pattern c n = Some (Groups g) \<and> g \<in> set fs))
        \<and> checkReleaseName2 c fs n = checkReleaseName c fs n)
   \<and> (\<not> truthy (prefix c) \<and> \<not> truthy (regex c) \<longrightarrow>
        checkReleaseName c fs n = Inr (True, fs))"
proof (intro conjI impI)
  show "checkReleaseNameAgainstPrefix (prefix c) n
          = (truthy (prefix c) \<longrightarrow> (\<exists>p. prefix c = Some p \<and> startsWith n p))"
    by (rule prefix_check_iff)
  show "checkReleaseNameAgainstRegex (regex c) (pattern c) n
          = (truthy (regex c) \<longrightarrow> test (pattern c) n)"
    by (rule regex_check_iff)
next
  assume "\<not> keepLatestReleases c"
  then show "checkReleaseName c fs n
          = Inr (checkReleaseNameAgainstPrefix (prefix c) n
                 \<and> checkReleaseNameAgainstRegex (regex c) (pattern c) n, fs)"
    by (rule check_no_keep)
next
  assume "\<not> keepLatestReleases c"
  then show "checkReleaseName2 c fs n = checkReleaseName c fs n"
    by (simp add: check2_eq_check)
next
  assume "keepLatestReleases c \<and> truthy (regex c)"
  then show "(\<exists>fs'. checkReleaseName c fs n = Inr (True, fs'))
          = (checkReleaseNameAgainstPrefix (prefix c) n
             \<and> checkReleaseNameAgainstRegex (regex c) (pattern c) n
             \<and> (\<exists>g. pattern c n = Some (Groups g) \<and> g \<in> set fs))"
    by (simp add: check_true_iff)
next
  assume "keepLatestReleases c \<and> truthy (regex c)"
  then show "checkReleaseName2 c fs n = checkReleaseName c fs n"
    by (simp add: check2_eq_check)
next
  assume "\<not> truthy (prefix c) \<and> \<not> truthy (regex c)"
  then show "checkReleaseName c fs n = Inr (True, fs)"
    by (simp add: check_neither)
qed

theorem checkReleaseName_all_subchecks_witness:
  "checkReleaseName
     \<lparr>prefix = Some ''develop-'', regex = None, keepLatestReleases = False,
      pattern = empty_pattern\<rparr> [] ''develop-1'' = Inr (True, [])
   \<and> checkReleaseName
     \<lparr>prefix = Some ''develop-'', regex = None, keepLatestReleases = False,
      pattern = empty_pattern\<rparr> [] ''master-1'' = Inr (False, [])
   \<and> checkReleaseName2
     \<lparr>prefix = Some ''develop-'', regex = None, keepLatestReleases = False,
      pattern = empty_pattern\<rparr> [] ''master-1'' = Inr (False, [])
   \<and> checkReleaseName
     \<lparr>prefix = None, regex = None, keepLatestReleases = False,
      pattern = empty_pattern\<rparr> [] ''master-1'' = Inr (True, [])
   \<and> (\<exists>fs'. checkReleaseName
     \<lparr>prefix = None, regex = Some group_number_src, keepLatestReleases = True,
      pattern = group_number_pattern\<rparr> [Some ''develop''] ''develop-1'' = Inr (True, fs'))"
  using checkReleaseName_all_subchecks
          [of "\<lparr>prefix = Some ''develop-'', regex = None, keepLatestReleases = False,
                pattern = empty_pattern\<rparr>" "''develop-1''" "[]"]
        checkReleaseName_all_subchecks
          [of "\<lparr>prefix = Some ''develop-'', regex = None, keepLatestReleases = False,
                pattern = empty_pattern\<rparr>" "''master-1''" "[]"]
        checkReleaseName_all_subchecks
          [of "\<lparr>prefix = None, regex = None, keepLatestReleases = False,
                pattern = empty_pattern\<rparr>" "''master-1''" "[]"]
        checkReleaseName_all_subchecks
          [of "\<lparr>prefix = None, regex = Some group_number_src, keepLatestReleases = True,
                pattern = group_number_pattern\<rparr>" "''develop-1''" "[Some ''develop'']"]
  by (simp add: startsWith_def group_number_src_def group_number_pattern_def test_def
      checkReleaseNameAgainstPrefix_def checkReleaseNameAgainstRegex_def)

text \<open>
  C10. A name on which the prefix check or the regex match fails is answered false and
  leaves \<^verbatim>\<open>foundReleaseGroups\<close> as it was, in both listings and whether or not
  keep-latest-releases is enabled; in a run over several names the answers to the other
  names and the final state are those of the run without it.
\<close>

theorem rejected_name_leaves_groups_unchanged:
  assumes "(\<exists>p. prefix c = Some p \<and> p \<noteq> [] \<and> \<not> startsWith n p)
           \<or> (truthy (regex c) \<and> \<not> test (pattern c) n)"
  shows "checkReleaseName c fs n = Inr (False, fs)
         \<and> checkReleaseName2 c fs n = Inr (False, fs)
         \<and> verdicts (checkReleaseName c) fs (n # ns)
             = (case verdicts (checkReleaseName c) fs ns of
                  Inl e \<Rightarrow> Inl e
                | Inr (oks, fs') \<Rightarrow> Inr (False # oks, fs'))"
proof -
  have rej: "\<not> checkReleaseNameAgainstPrefix (prefix c) n
             \<or> \<not> checkReleaseNameAgainstRegex (regex c) (pattern c) n"
    using assms by (auto simp: prefix_check_iff regex_check_iff)
  have one: "checkReleaseName c fs n = Inr (False, fs)"
    using rej by (rule check_rejected)
  have two: "checkReleaseName2 c fs n = Inr (False, fs)"
    using rej by (rule check2_rejected)
  show ?thesis using one two by simp
qed

theorem rejected_name_leaves_groups_unchanged_witness:
  "truthy (Some group_number_src) \<and> \<not> test group_number_pattern ''develop-rc''
   \<and> checkReleaseName
        \<lparr>prefix = None, regex = Some group_number_src, keepLatestReleases = True,
         pattern = group_number_pattern\<rparr> [Some ''master''] ''develop-rc''
       = Inr (False, [Some ''master''])
   \<and> checkReleaseName2
        \<lparr>prefix = None, regex = Some group_number_src, keepLatestReleases = True,
         pattern = group_number_pattern\<rparr> [Some ''master''] ''develop-rc''
       = Inr (False, [Some ''master''])"
proof -
  have h: "truthy (Some group_number_src) \<and> \<not> test group_number_pattern ''develop-rc''"
    by (simp add: group_number_src_def group_number_pattern_def test_def)
  show ?thesis
    using h rejected_name_leaves_groups_unchanged
          [of "\<lparr>prefix = None, regex = Some group_number_src, keepLatestReleases = True,
                pattern = group_number_pattern\<rparr>" "''develop-rc''" "[Some ''master'']" "[]"]
    by simp
qed

lemma verdicts_groups:
  assumes "\<forall>n\<in>set ns. \<forall>fs. f fs n
             = (if G n \<in> set fs then Inr (True, fs) else Inr (False, fs @ [G n]))"
  shows "\<exists>oks fs'. verdicts f fs ns = Inr (oks, fs') \<and> length oks = length ns
           \<and> (\<forall>i<length ns. oks ! i = (G (ns ! i) \<in> set fs \<union> G ` set (take i ns)))
           \<and> set fs' = set fs \<union> G ` set ns \<and> (distinct fs \<longrightarrow> distinct fs')"
  using assms
proof (induction ns arbitrary: fs)
  case Nil
  then show ?case by simp
next
  case (Cons n ns)
  define fs1 where "fs1 = (if G n \<in> set fs then fs else fs @ [G n])"
  have step: "f fs n = Inr (G n \<in> set fs, fs1)"
    using Cons.prems by (simp add: fs1_def)
  have set1: "set fs1 = insert (G n) (set fs)"
    by (auto simp: fs1_def)
  have dist1: "distinct fs \<longrightarrow> distinct fs1"
    by (simp add: fs1_def)
  have "\<forall>m\<in>set ns. \<forall>fs. f fs m
          = (if G m \<in> set fs then Inr (True, fs) else Inr (False, fs @ [G m]))"
    using Cons.prems by simp
  from Cons.IH [OF this, of fs1] obtain oks fs' where
    run: "verdicts f fs1 ns = Inr (oks, fs')" and
    len: "length oks = length ns" and
    nth: "\<forall>i<length ns. oks ! i = (G (ns ! i) \<in> set fs1 \<union> G ` set (take i ns))" and
    fin: "set fs' = set fs1 \<union> G ` set ns" and
    dist: "distinct fs1 \<longrightarrow> distinct fs'"
    by blast
  have all: "verdicts f fs (n # ns) = Inr ((G n \<in> set fs) # oks, fs')"
    using step run by simp
  have nth': "\<forall>i<length (n # ns).
                ((G n \<in> set fs) # oks) ! i
                  = (G ((n # ns) ! i) \<in> set fs \<union> G ` set (take i (n # ns)))"
  proof (intro allI impI)
    fix i assume i: "i < length (n # ns)"
    show "((G n \<in> set fs) # oks) ! i
            = (G ((n # ns) ! i) \<in> set fs \<union> G ` set (take i (n # ns)))"
    proof (cases i)
      case 0
      then show ?thesis by simp
    next
      case (Suc j)
      then have "j < length ns" using i by simp
      then have "oks ! j = (G (ns ! j) \<in> set fs1 \<union> G ` set (take j ns))"
        using nth by blast
      then show ?thesis using Suc set1 by auto
    qed
  qed
  have fin': "set fs' = set fs \<union> G ` set (n # ns)"
    using fin set1 by auto
  show ?case
    using all len nth' fin' dist dist1 by (intro exI [of _ "(G n \<in> set fs) # oks"] exI [of _ fs']) simp
qed

lemma check_group_step:
  assumes "keepLatestReleases c" and "truthy (regex c)"
    and "checkReleaseNameAgainstPrefix (prefix c) n" and "\<exists>g. pattern c n = Some (Groups g)"
  shows "checkReleaseName c fs n
           = (if groupOf (pattern c) n \<in> set fs then Inr (True, fs)
              else Inr (False, fs @ [groupOf (pattern c) n]))"
proof -
  from assms(4) obtain g where g: "pattern c n = Some (Groups g)" by blast
  then have "groupOf (pattern c) n = g" by (simp add: groupOf_def)
  then show ?thesis using check_group [OF assms(1) assms(2) assms(3) g] by simp
qed


lemma parseInputs_develop:
  "parseInputs (stub_env [(''regex'', group_number_src), (''max-age'', ''P1W''),
                          (''keep-latest-releases'', ''true'')]
                 group_number_pattern (Inr week_before_now))
     = Inr (\<lparr>checkReleaseName_in =
                checkReleaseName \<lparr>prefix = None, regex = Some group_number_src,
                                  keepLatestReleases = True, pattern = group_number_pattern\<rparr>,
              dateCutoff = week_before_now, deleteTags = False, dryRun = False, token = None,
              owner = ''tester'', repo = ''testing''\<rparr>, [])"
  by (simp add: parseInputs_def stub_env_def indexOf_def group_number_src_def startsWith_def)

lemma develop_fetch:
  "fetchAndFilterReleases 1 develop_octokit
     \<lparr>checkReleaseName_in =
        checkReleaseName \<lparr>prefix = None, regex = Some group_number_src,
                          keepLatestReleases = True, pattern = group_number_pattern\<rparr>,
      dateCutoff = week_before_now, deleteTags = False, dryRun = False, token = None,
      owner = ''tester'', repo = ''testing''\<rparr> []
     = Some ([ListReleases ''tester'' ''testing'' 1 100, CheckReleaseName ''develop-2'',
              CheckReleaseName ''develop-1''],
             Inr ([\<lparr>id_info = 1, name_info = ''develop-1'', tag = []\<rparr>], [Some ''develop'']))"
  by (simp add: fetchAndFilterReleases_def develop_octokit_def develop_2_def develop_1_def
      per_page_def checkReleaseName_def group_number_src_def group_number_pattern_def
      test_def match_def isAfter_def releaseDate_def toInfo_def week_before_now_def)

text \<open>
  C1. With keep-latest-releases enabled and a regex configured, take any sequence of names
  that pass the prefix check and that the pattern matches with its named groups. In one
  run of the predicate over the sequence, started with the groups \<open>fs\<close> already
  recorded, the answer to a name is true exactly when its group value was recorded
  before it (in \<open>fs\<close> or by an earlier name); the answer to the first name of each new
  group is false, and the groups recorded at the end are those of \<open>fs\<close> and of the
  names, each once. Both listings behave so. In the scenario of the tests (regex
  \<^verbatim>\<open>^(?<group>.*)-\d+$\<close>, \<^verbatim>\<open>develop-2\<close> then \<^verbatim>\<open>develop-1\<close>, cutoff one week before
  2022-01-31) the collector selects \<^verbatim>\<open>develop-1\<close> only.
\<close>

theorem keep_latest_first_seen_is_kept:
  assumes "keepLatestReleases c" and "truthy (regex c)"
    and "\<forall>n\<in>set ns. checkReleaseNameAgainstPrefix (prefix c) n
                      \<and> (\<exists>g. pattern c n = Some (Groups g))"
  shows "(\<exists>oks fs'.
            verdicts (checkReleaseName c) fs ns = Inr (oks, fs')
            \<and> verdicts (checkReleaseName2 c) fs ns = Inr (oks, fs')
            \<and> length oks = length ns
            \<and> (\<forall>i<length ns.
                  oks ! i = (groupOf (pattern c) (ns ! i)
                               \<in> set fs \<union> groupOf (pattern c) ` set (take i ns)))
            \<and> set fs' = set fs \<union> groupOf (pattern c) ` set ns
            \<and> (distinct fs \<longrightarrow> distinct fs'))
         \<and> (\<exists>inputs.
               parseInputs (stub_env [(''regex'', group_number_src), (''max-age'', ''P1W''),
                                      (''keep-latest-releases'', ''true'')]
                             group_number_pattern (Inr week_before_now))
                 = Inr (inputs, [])
               \<and> fetchAndFilterReleases 1 develop_octokit inputs []
                   = Some ([ListReleases ''tester'' ''testing'' 1 100,
                            CheckReleaseName ''develop-2'', CheckReleaseName ''develop-1''],
                           Inr ([\<lparr>id_info = 1, name_info = ''develop-1'', tag = []\<rparr>],
                                [Some ''develop''])))"
proof
  have step: "\<forall>n\<in>set ns. \<forall>fs. checkReleaseName c fs n
                = (if groupOf (pattern c) n \<in> set fs then Inr (True, fs)
                   else Inr (False, fs @ [groupOf (pattern c) n]))"
    using assms by (auto simp: check_group_step)
  have same: "checkReleaseName2 c = checkReleaseName c"
    using assms(1) assms(2) by (intro ext) (simp add: check2_eq_check)
  from verdicts_groups [OF step, of fs]
  show "\<exists>oks fs'.
            verdicts (checkReleaseName c) fs ns = Inr (oks, fs')
            \<and> verdicts (checkReleaseName2 c) fs ns = Inr (oks, fs')
            \<and> length oks = length ns
            \<and> (\<forall>i<length ns.
                  oks ! i = (groupOf (pattern c) (ns ! i)
                               \<in> set fs \<union> groupOf (pattern c) ` set (take i ns)))
            \<and> set fs' = set fs \<union> groupOf (pattern c) ` set ns
            \<and> (distinct fs \<longrightarrow> distinct fs')"
    unfolding same by blast
next
  show "\<exists>inputs.
               parseInputs (stub_env [(''regex'', group_number_src), (''max-age'', ''P1W''),
                                      (''keep-latest-releases'', ''true'')]
                             group_number_pattern (Inr week_before_now))
                 = Inr (inputs, [])
               \<and> fetchAndFilterReleases 1 develop_octokit inputs []
                   = Some ([ListReleases ''tester'' ''testing'' 1 100,
                            CheckReleaseName ''develop-2'', CheckReleaseName ''develop-1''],
                           Inr ([\<lparr>id_info = 1, name_info = ''develop-1'', tag = []\<rparr>],
                                [Some ''develop'']))"
    using parseInputs_develop develop_fetch by simp
qed

theorem keep_latest_first_seen_is_kept_witness:
  "keepLatestReleases \<lparr>prefix = None, regex = Some group_number_src,
                        keepLatestReleases = True, pattern = group_number_pattern\<rparr>
   \<and> truthy (Some group_number_src)
   \<and> group_number_pattern ''develop-2'' = Some (Groups (Some ''develop''))
   \<and> group_number_pattern ''master-7'' = Some (Groups (Some ''master''))
   \<and> group_number_pattern ''develop-1'' = Some (Groups (Some ''develop''))
   \<and> (\<exists>oks fs'.
         verdicts (checkReleaseName \<lparr>prefix = None, regex = Some group_number_src,
                     keepLatestReleases = True, pattern = group_number_pattern\<rparr>)
           [] [''develop-2'', ''master-7'', ''develop-1''] = Inr (oks, fs')
         \<and> oks ! 0 = False \<and> oks ! 1 = False \<and> oks ! 2 = True
         \<and> set fs' = {Some ''develop'', Some ''master''} \<and> distinct fs')"
proof -
  let ?c = "\<lparr>prefix = None, regex = Some group_number_src,
              keepLatestReleases = True, pattern = group_number_pattern\<rparr>"
  let ?ns = "[''develop-2'', ''master-7'', ''develop-1'']"
  have h1: "keepLatestReleases ?c" by simp
  have h2: "truthy (regex ?c)" by (simp add: group_number_src_def)
  have h3: "\<forall>n\<in>set ?ns. checkReleaseNameAgainstPrefix (prefix ?c) n
                      \<and> (\<exists>g. pattern ?c n = Some (Groups g))"
    by (simp add: checkReleaseNameAgainstPrefix_def group_number_pattern_def)
  have g: "groupOf group_number_pattern ''develop-2'' = Some ''develop''"
    "groupOf group_number_pattern ''master-7'' = Some ''master''"
    "groupOf group_number_pattern ''develop-1'' = Some ''develop''"
    by (simp_all add: groupOf_def group_number_pattern_def)
  note ex = keep_latest_first_seen_is_kept [OF h1 h2 h3, of "[]", THEN conjunct1]
  have h3': "group_number_pattern ''develop-2'' = Some (Groups (Some ''develop''))"
    "group_number_pattern ''master-7'' = Some (Groups (Some ''master''))"
    "group_number_pattern ''develop-1'' = Some (Groups (Some ''develop''))"
    by (simp_all add: group_number_pattern_def)
  have h2': "truthy (Some group_number_src)" using h2 by simp
  have "\<exists>oks fs'.
         verdicts (checkReleaseName ?c) [] ?ns = Inr (oks, fs')
         \<and> oks ! 0 = False \<and> oks ! 1 = False \<and> oks ! 2 = True
         \<and> set fs' = {Some ''develop'', Some ''master''} \<and> distinct fs'"
    using ex g by (auto simp: numeral_2_eq_2)
  with h1 h2' h3' show ?thesis by (intro conjI)
qed

section \<open>The collector\<close>

lemma forReleases_verdicts:
  "verdicts (checkReleaseName_in inputs) st (map name_rel (filter (\<lambda>r. \<not> draft r) rs))
     = Inr (oks, st') \<Longrightarrow>
   forReleases inputs rs st acc
     = (map CheckReleaseName (map name_rel (filter (\<lambda>r. \<not> draft r) rs)),
        Inr (st', acc @ selected (dateCutoff inputs) (filter (\<lambda>r. \<not> draft r) rs) oks))"
proof (induction rs arbitrary: st acc oks)
  case Nil
  then show ?case by (simp add: selected_def)
next
  case (Cons r rs)
  show ?case
  proof (cases "draft r")
    case True
    then show ?thesis using Cons by simp
  next
    case False
    from Cons.prems False obtain ok s1 oks1 where
      f: "checkReleaseName_in inputs st (name_rel r) = Inr (ok, s1)" and
      v: "verdicts (checkReleaseName_in inputs) s1 (map name_rel (filter (\<lambda>r. \<not> draft r) rs))
            = Inr (oks1, st')" and
      o: "oks = ok # oks1"
      by (auto split: sum.splits prod.splits)
    note ih = Cons.IH [OF v]
    show ?thesis using False f o ih
      by (simp add: selected_def isAfter_def releaseDate_def toInfo_def)
  qed
qed

lemma forReleases_events:
  "forReleases inputs rs st acc = (evs, out) \<Longrightarrow>
   filter is_CheckReleaseName evs = evs \<and> filter is_ListReleases evs = []"
proof (induction rs arbitrary: st acc evs out)
  case Nil
  then show ?case by auto
next
  case (Cons r rs)
  then show ?case
    by (auto split: if_splits sum.splits prod.splits)
qed

lemma forReleases_split:
  "forReleases inputs (xs @ ys) st acc = (evs, Inr (s2, a2)) \<Longrightarrow>
   \<exists>e1 s1 a1 e2. forReleases inputs xs st acc = (e1, Inr (s1, a1))
      \<and> forReleases inputs ys s1 a1 = (e2, Inr (s2, a2)) \<and> evs = e1 @ e2"
proof (induction xs arbitrary: st acc evs)
  case Nil
  then show ?case by simp
next
  case (Cons r rs)
  show ?case
  proof (cases "draft r")
    case True
    then show ?thesis using Cons by simp
  next
    case False
    then show ?thesis using Cons.prems Cons.IH
      by (fastforce split: sum.splits prod.splits)
  qed
qed

lemma doWhile_pages:
  assumes "\<forall>i<length ps. listReleases octo (owner inputs) (repo inputs) (page + 1 + i) per_page
                            = Inr (ps ! i)"
    and "ps \<noteq> []"
    and "\<forall>i<length ps - 1. length (ps ! i) = per_page"
    and "length (last ps) \<noteq> per_page"
    and "length ps \<le> fuel"
    and "forReleases inputs (concat ps) st acc = (cevs, Inr (st', acc'))"
  shows "\<exists>evs. doWhile fuel octo inputs page st acc = Some (evs, Inr (acc', st'))
           \<and> filter is_ListReleases evs
               = map (\<lambda>p. ListReleases (owner inputs) (repo inputs) p per_page)
                   [page + 1..<page + 1 + length ps]
           \<and> filter is_CheckReleaseName evs = cevs"
  using assms
proof (induction ps arbitrary: page st acc fuel cevs)
  case Nil
  then show ?case by simp
next
  case (Cons pg ps)
  from Cons.prems(5) obtain f where fuel: "fuel = Suc f" and f: "length ps \<le> f"
    by (cases fuel) auto
  have L: "listReleases octo (owner inputs) (repo inputs) (page + 1) per_page = Inr pg"
    using Cons.prems(1) by auto
  show ?case
  proof (cases "ps = []")
    case True
    have short: "length pg \<noteq> per_page" using Cons.prems(4) True by simp
    have scan: "forReleases inputs pg st acc = (cevs, Inr (st', acc'))"
      using Cons.prems(6) True by simp
    have ev: "filter is_CheckReleaseName cevs = cevs" "filter is_ListReleases cevs = []"
      using forReleases_events [OF scan] by auto
    show ?thesis using True L short scan ev fuel by simp
  next
    case False
    have full: "length pg = per_page"
      using Cons.prems(3) False by (auto dest: spec [of _ 0])
    from forReleases_split [of inputs pg "concat ps" st acc cevs st' acc'] Cons.prems(6)
    obtain e1 s1 a1 e2 where
      scan1: "forReleases inputs pg st acc = (e1, Inr (s1, a1))" and
      scan2: "forReleases inputs (concat ps) s1 a1 = (e2, Inr (st', acc'))" and
      cevs: "cevs = e1 @ e2"
      by auto
    have ev: "filter is_CheckReleaseName e1 = e1" "filter is_ListReleases e1 = []"
      using forReleases_events [OF scan1] by auto
    have h1: "\<forall>i<length ps. listReleases octo (owner inputs) (repo inputs) (page + 1 + 1 + i) per_page
                               = Inr (ps ! i)"
    proof (intro allI impI)
      fix i assume "i < length ps"
      then have "Suc i < length (pg # ps)" by simp
      with Cons.prems(1)
      have "listReleases octo (owner inputs) (repo inputs) (page + 1 + Suc i) per_page
              = Inr ((pg # ps) ! Suc i)"
        by blast
      then show "listReleases octo (owner inputs) (repo inputs) (page + 1 + 1 + i) per_page
                   = Inr (ps ! i)"
        by simp
    qed
    have h3: "\<forall>i<length ps - 1. length (ps ! i) = per_page"
    proof (intro allI impI)
      fix i assume "i < length ps - 1"
      then have "Suc i < length (pg # ps) - 1" by simp
      with Cons.prems(3) have "length ((pg # ps) ! Suc i) = per_page" by blast
      then show "length (ps ! i) = per_page" by simp
    qed
    have h4: "length (last ps) \<noteq> per_page" using Cons.prems(4) False by simp
    from Cons.IH [OF h1 False h3 h4 f scan2]
    obtain evs' where
      rest: "doWhile f octo inputs (page + 1) s1 a1 = Some (evs', Inr (acc', st'))" and
      lists: "filter is_ListReleases evs'
               = map (\<lambda>p. ListReleases (owner inputs) (repo inputs) p per_page)
                   [page + 1 + 1..<page + 1 + 1 + length ps]" and
      checks: "filter is_CheckReleaseName evs' = e2"
      by auto
    have upt: "[page + 1..<page + 1 + length (pg # ps)]
                 = (page + 1) # [page + 1 + 1..<page + 1 + 1 + length ps]"
      by (subst upt_rec) simp
    show ?thesis
      using L full scan1 rest lists checks ev cevs fuel upt by simp
  qed
qed

text \<open>The collector on a listing that ends with its first short page, when the
  predicate throws on none of the names.\<close>

lemma fetch_pages:
  assumes "ps \<noteq> []"
    and "\<forall>i<length ps. listReleases octo (owner inputs) (repo inputs) (i + 1) per_page
                            = Inr (ps ! i)"
    and "\<forall>i<length ps - 1. length (ps ! i) = per_page"
    and "length (last ps) \<noteq> per_page"
    and "length ps \<le> fuel"
    and "verdicts (checkReleaseName_in inputs) st
           (map name_rel (filter (\<lambda>r. \<not> draft r) (concat ps))) = Inr (oks, st')"
  shows "\<exists>evs. fetchAndFilterReleases fuel octo inputs st
                  = Some (evs, Inr (selected (dateCutoff inputs)
                                      (filter (\<lambda>r. \<not> draft r) (concat ps)) oks, st'))
           \<and> filter is_ListReleases evs
               = map (\<lambda>p. ListReleases (owner inputs) (repo inputs) p 100)
                   [1..<Suc (length ps)]
           \<and> filter is_CheckReleaseName evs
               = map CheckReleaseName (map name_rel (filter (\<lambda>r. \<not> draft r) (concat ps)))"
proof -
  have h1: "\<forall>i<length ps. listReleases octo (owner inputs) (repo inputs) (0 + 1 + i) per_page
                             = Inr (ps ! i)"
    using assms(2) by (simp add: add.commute)
  note scan = forReleases_verdicts [OF assms(6), of "[]"]
  from doWhile_pages [OF h1 assms(1) assms(3) assms(4) assms(5) scan]
  show ?thesis
    by (simp add: fetchAndFilterReleases_def per_page_def)
qed

lemma verdicts_stateless:
  "\<forall>s n. f s n = Inr (p n, s) \<Longrightarrow> verdicts f st ns = Inr (map p ns, st)"
  by (induction ns) auto

lemma selected_stateless:
  "selected cutoff rs (map (\<lambda>r. p (name_rel r)) rs)
     = map (\<lambda>r. \<lparr>id_info = id_rel r, name_info = name_rel r, tag = tag_name r\<rparr>)
         (filter (\<lambda>r. p (name_rel r)
                       \<and> (case published_at r of Some d \<Rightarrow> d | None \<Rightarrow> created_at r) < cutoff) rs)"
  by (induction rs) (auto simp: selected_def)


lemma upt_split: "i \<le> j \<Longrightarrow> j \<le> k \<Longrightarrow> [i..<k] = [i..<j] @ [j..<k]"
  using upt_add_eq_append [of i j "k - j"] by simp

text \<open>The pagination test.\<close>

lemma paged_fetch:
  "\<exists>evs. fetchAndFilterReleases 3 paged_octokit paged_inputs ()
            = Some (evs, Inr (map (\<lambda>n. \<lparr>id_info = int n, name_info = ''release-'' @ decimal n,
                                        tag = []\<rparr>) [0..<261], ()))
      \<and> filter is_ListReleases evs
          = [ListReleases ''tester'' ''testing'' 1 100,
             ListReleases ''tester'' ''testing'' 2 100,
             ListReleases ''tester'' ''testing'' 3 100]"
proof -
  define p1 where "p1 = map release_n [0..<100]"
  define p2 where "p2 = map release_n [100..<200]"
  define p3 where "p3 = map release_n [200..<261]"
  define ps where "ps = [p1, p2, p3]"
  have len: "length p1 = 100" "length p2 = 100" "length p3 = 61"
    by (simp_all add: p1_def p2_def p3_def)
  have all: "concat ps = map release_n [0..<261]"
  proof -
    have a: "[0..<261] = [0..<100] @ [100..<261]"
      by (rule upt_split) simp_all
    have b: "[100..<261] = [100..<200] @ [200..<261]"
      by (rule upt_split) simp_all
    have "[0..<261] = [0..<100] @ [100..<200] @ [200..<261]"
      by (simp only: a b)
    then show ?thesis
      by (simp only: ps_def p1_def p2_def p3_def concat.simps map_append append_Nil2)
  qed
  have nodraft: "filter (\<lambda>r. \<not> draft r) (map release_n xs) = map release_n xs" for xs
    by (induction xs) (simp_all add: release_n_def)
  have old: "filter (\<lambda>r. True \<and> (case published_at r of Some d \<Rightarrow> d | None \<Rightarrow> created_at r)
                               < dateCutoff paged_inputs) (map release_n xs)
               = map release_n xs" for xs
    by (induction xs) (simp_all add: release_n_def paged_inputs_def now_ms_def)
  have h0: "ps \<noteq> []" by (simp add: ps_def)
  have h1: "\<forall>i<length ps. listReleases paged_octokit (owner paged_inputs) (repo paged_inputs)
                              (i + 1) per_page = Inr (ps ! i)"
  proof (intro allI impI)
    fix i assume "i < length ps"
    then have "i = 0 \<or> i = 1 \<or> i = 2" by (auto simp: ps_def)
    then show "listReleases paged_octokit (owner paged_inputs) (repo paged_inputs)
                 (i + 1) per_page = Inr (ps ! i)"
      by (auto simp: ps_def paged_octokit_def p1_def p2_def p3_def)
  qed
  have h3: "\<forall>i<length ps - 1. length (ps ! i) = per_page"
  proof (intro allI impI)
    fix i assume "i < length ps - 1"
    then have "i = 0 \<or> i = 1" by (auto simp: ps_def)
    then show "length (ps ! i) = per_page"
      using len by (auto simp: ps_def per_page_def)
  qed
  have h4: "length (last ps) \<noteq> per_page"
    using len by (simp add: ps_def per_page_def)
  have h5: "length ps \<le> 3" by (simp add: ps_def)
  have stateless: "\<forall>s n. checkReleaseName_in paged_inputs s n = Inr ((\<lambda>n. True) n, s)"
    by (simp add: paged_inputs_def)
  have h6: "verdicts (checkReleaseName_in paged_inputs) ()
              (map name_rel (filter (\<lambda>r. \<not> draft r) (concat ps)))
              = Inr (map (\<lambda>r. True) (filter (\<lambda>r. \<not> draft r) (concat ps)), ())"
    using verdicts_stateless [OF stateless] by (simp add: comp_def)
  have sel: "selected (dateCutoff paged_inputs) (filter (\<lambda>r. \<not> draft r) (concat ps))
               (map (\<lambda>r. True) (filter (\<lambda>r. \<not> draft r) (concat ps)))
             = map (\<lambda>n. \<lparr>id_info = int n, name_info = ''release-'' @ decimal n, tag = []\<rparr>)
                 [0..<261]"
    unfolding selected_stateless [of _ _ "\<lambda>n. True"] all nodraft old
    by (simp only: map_map comp_def release_n_def release.simps)
  have upt3: "[1..<Suc (length ps)] = [1, 2, 3]"
    by (simp add: ps_def upt_rec)
  from fetch_pages [OF h0 h1 h3 h4 h5 h6] obtain evs where
    r: "fetchAndFilterReleases 3 paged_octokit paged_inputs ()
          = Some (evs, Inr (selected (dateCutoff paged_inputs)
                              (filter (\<lambda>r. \<not> draft r) (concat ps))
                              (map (\<lambda>r. True) (filter (\<lambda>r. \<not> draft r) (concat ps))), ()))" and
    l: "filter is_ListReleases evs
          = map (\<lambda>p. ListReleases (owner paged_inputs) (repo paged_inputs) p 100)
              [1..<Suc (length ps)]"
    by blast
  have l': "filter is_ListReleases evs
          = [ListReleases ''tester'' ''testing'' 1 100,
             ListReleases ''tester'' ''testing'' 2 100,
             ListReleases ''tester'' ''testing'' 3 100]"
    unfolding l upt3 by (simp add: paged_inputs_def)
  show ?thesis
    using r l' unfolding sel by (intro exI [of _ evs] conjI)
qed

text \<open>
  C2. Let the listing answer pages 1, 2, ... with \<open>ps\<close>, every page but the last
  holding 100 releases, and let the predicate answer \<open>oks\<close> over the names of the
  releases that are not drafts, in the order of the listing. Then the collector returns,
  and returns exactly the non-draft releases whose answer is true and whose effective
  date is strictly before the cutoff, each as \<^verbatim>\<open>{id, name, tag}\<close> with the tag taken from
  \<^verbatim>\<open>tag_name\<close>, in the order of the listing. For a predicate without state this is the
  listing filtered by: not a draft, name accepted, effective date before the cutoff.
\<close>

theorem fetchAndFilterReleases_returns_selection:
  assumes "ps \<noteq> []"
    and "\<forall>i<length ps. listReleases octo (owner inputs) (repo inputs) (i + 1) per_page
                            = Inr (ps ! i)"
    and "\<forall>i<length ps - 1. length (ps ! i) = per_page"
    and "length (last ps) \<noteq> per_page"
    and "length ps \<le> fuel"
    and "verdicts (checkReleaseName_in inputs) st
           (map name_rel (filter (\<lambda>r. \<not> draft r) (concat ps))) = Inr (oks, st')"
  shows "(\<exists>evs. fetchAndFilterReleases fuel octo inputs st
                   = Some (evs, Inr (selected (dateCutoff inputs)
                                       (filter (\<lambda>r. \<not> draft r) (concat ps)) oks, st')))
         \<and> ((\<forall>s n. checkReleaseName_in inputs s n = Inr (p n, s)) \<longrightarrow>
              selected (dateCutoff inputs) (filter (\<lambda>r. \<not> draft r) (concat ps)) oks
                = map (\<lambda>r. \<lparr>id_info = id_rel r, name_info = name_rel r, tag = tag_name r\<rparr>)
                    (filter (\<lambda>r. \<not> draft r \<and> p (name_rel r)
                                  \<and> (case published_at r of Some d \<Rightarrow> d | None \<Rightarrow> created_at r)
                                      < dateCutoff inputs)
                       (concat ps)))"
proof (intro conjI impI)
  from fetch_pages [OF assms]
  show "\<exists>evs. fetchAndFilterReleases fuel octo inputs st
                   = Some (evs, Inr (selected (dateCutoff inputs)
                                       (filter (\<lambda>r. \<not> draft r) (concat ps)) oks, st'))"
    by blast
next
  assume stateless: "\<forall>s n. checkReleaseName_in inputs s n = Inr (p n, s)"
  let ?nd = "filter (\<lambda>r. \<not> draft r) (concat ps)"
  have "verdicts (checkReleaseName_in inputs) st (map name_rel ?nd)
          = Inr (map p (map name_rel ?nd), st)"
    using stateless by (rule verdicts_stateless)
  with assms(6) have oks: "oks = map (\<lambda>r. p (name_rel r)) ?nd"
    by (simp add: comp_def)
  show "selected (dateCutoff inputs) ?nd oks
          = map (\<lambda>r. \<lparr>id_info = id_rel r, name_info = name_rel r, tag = tag_name r\<rparr>)
              (filter (\<lambda>r. \<not> draft r \<and> p (name_rel r)
                            \<and> (case published_at r of Some d \<Rightarrow> d | None \<Rightarrow> created_at r)
                                < dateCutoff inputs)
                 (concat ps))"
    unfolding oks selected_stateless by (simp add: conj_commute conj_left_commute)
qed

text \<open>
  C3. Under the same conditions the predicate is called once for each release that is not
  a draft, in the order of the listing across all pages, and for no draft: the calls of a
  run are the names of the non-draft releases, in order. The calls do not depend on the
  dates, and the state the predicate is left in is the state after all of them, whatever
  the dates are.
\<close>

theorem checkReleaseName_called_once_per_non_draft:
  assumes "ps \<noteq> []"
    and "\<forall>i<length ps. listReleases octo (owner inputs) (repo inputs) (i + 1) per_page
                            = Inr (ps ! i)"
    and "\<forall>i<length ps - 1. length (ps ! i) = per_page"
    and "length (last ps) \<noteq> per_page"
    and "length ps \<le> fuel"
    and "verdicts (checkReleaseName_in inputs) st
           (map name_rel (filter (\<lambda>r. \<not> draft r) (concat ps))) = Inr (oks, st')"
  shows "\<exists>evs out. fetchAndFilterReleases fuel octo inputs st = Some (evs, Inr (out, st'))
           \<and> filter is_CheckReleaseName evs
               = map CheckReleaseName (map name_rel (filter (\<lambda>r. \<not> draft r) (concat ps)))"
  using fetch_pages [OF assms] by blast

text \<open>
  C4. Under the same conditions the listing requests of a run are the pages 1, 2, ... up
  to the first page that holds other than 100 releases, each with page size 100: a page
  of 100 releases is followed by the request of the next page, a shorter page by none.
  With the 261 releases of the tests the requests are the pages 1, 2 and 3 and all 261
  entries are returned in their order.
\<close>

theorem fetchAndFilterReleases_page_requests:
  assumes "ps \<noteq> []"
    and "\<forall>i<length ps. listReleases octo (owner inputs) (repo inputs) (i + 1) per_page
                            = Inr (ps ! i)"
    and "\<forall>i<length ps - 1. length (ps ! i) = per_page"
    and "length (last ps) \<noteq> per_page"
    and "length ps \<le> fuel"
    and "verdicts (checkReleaseName_in inputs) st
           (map name_rel (filter (\<lambda>r. \<not> draft r) (concat ps))) = Inr (oks, st')"
  shows "(\<exists>evs out. fetchAndFilterReleases fuel octo inputs st = Some (evs, Inr out)
            \<and> filter is_ListReleases evs
                = map (\<lambda>p. ListReleases (owner inputs) (repo inputs) p 100)
                    [1..<Suc (length ps)])
         \<and> (\<exists>evs. fetchAndFilterReleases 3 paged_octokit paged_inputs ()
                     = Some (evs, Inr (map (\<lambda>n. \<lparr>id_info = int n,
                                                 name_info = ''release-'' @ decimal n,
                                                 tag = []\<rparr>) [0..<261], ()))
               \<and> filter is_ListReleases evs
                   = [ListReleases ''tester'' ''testing'' 1 100,
                      ListReleases ''tester'' ''testing'' 2 100,
                      ListReleases ''tester'' ''testing'' 3 100])"
proof
  from fetch_pages [OF assms]
  show "\<exists>evs out. fetchAndFilterReleases fuel octo inputs st = Some (evs, Inr out)
            \<and> filter is_ListReleases evs
                = map (\<lambda>p. ListReleases (owner inputs) (repo inputs) p 100)
                    [1..<Suc (length ps)]"
    by blast
next
  show "\<exists>evs. fetchAndFilterReleases 3 paged_octokit paged_inputs ()
                     = Some (evs, Inr (map (\<lambda>n. \<lparr>id_info = int n,
                                                 name_info = ''release-'' @ decimal n,
                                                 tag = []\<rparr>) [0..<261], ()))
               \<and> filter is_ListReleases evs
                   = [ListReleases ''tester'' ''testing'' 1 100,
                      ListReleases ''tester'' ''testing'' 2 100,
                      ListReleases ''tester'' ''testing'' 3 100]"
    by (rule paged_fetch)
qed

lemma drafted_answers:
  "verdicts (checkReleaseName_in develop_inputs) []
     (map name_rel (filter (\<lambda>r. \<not> draft r) (concat [ [develop_3, develop_2, develop_1] ])))
     = Inr ([False, True], [Some ''develop''])"
  by (simp add: develop_inputs_def develop_3_def develop_2_def develop_1_def
      checkReleaseName_def group_number_src_def group_number_pattern_def test_def match_def)

lemma drafted_pages:
  "\<forall>i<length [ [develop_3, develop_2, develop_1] ].
     listReleases drafted_octokit (owner develop_inputs) (repo develop_inputs) (i + 1) per_page
       = Inr ([ [develop_3, develop_2, develop_1] ] ! i)"
  "\<forall>i<length [ [develop_3, develop_2, develop_1] ] - 1.
     length ([ [develop_3, develop_2, develop_1] ] ! i) = per_page"
  "length (last [ [develop_3, develop_2, develop_1] ]) \<noteq> per_page"
  by (simp_all add: drafted_octokit_def per_page_def)

theorem fetchAndFilterReleases_returns_selection_witness:
  "listReleases drafted_octokit ''tester'' ''testing'' 1 100
     = Inr [develop_3, develop_2, develop_1]
   \<and> verdicts (checkReleaseName_in develop_inputs) [] [''develop-2'', ''develop-1'']
       = Inr ([False, True], [Some ''develop''])
   \<and> (\<exists>evs. fetchAndFilterReleases 1 drafted_octokit develop_inputs []
               = Some (evs, Inr ([\<lparr>id_info = 1, name_info = ''develop-1'', tag = []\<rparr>],
                                 [Some ''develop''])))"
proof -
  have h0: "[ [develop_3, develop_2, develop_1] ] \<noteq> []" by simp
  have h5: "length [ [develop_3, develop_2, develop_1] ] \<le> 1" by simp
  have sel: "selected (dateCutoff develop_inputs)
               (filter (\<lambda>r. \<not> draft r) (concat [ [develop_3, develop_2, develop_1] ]))
               [False, True]
             = [\<lparr>id_info = 1, name_info = ''develop-1'', tag = []\<rparr>]"
    by (simp add: selected_def develop_inputs_def develop_3_def develop_2_def develop_1_def
        week_before_now_def)
  have names: "verdicts (checkReleaseName_in develop_inputs) [] [''develop-2'', ''develop-1'']
                 = Inr ([False, True], [Some ''develop''])"
    using drafted_answers by (simp add: develop_3_def develop_2_def develop_1_def)
  have lst: "listReleases drafted_octokit ''tester'' ''testing'' 1 100
               = Inr [develop_3, develop_2, develop_1]"
    by (simp add: drafted_octokit_def)
  from fetchAndFilterReleases_returns_selection
         [OF h0 drafted_pages(1) drafted_pages(2) drafted_pages(3) h5 drafted_answers,
          THEN conjunct1]
  have "\<exists>evs. fetchAndFilterReleases 1 drafted_octokit develop_inputs []
               = Some (evs, Inr ([\<lparr>id_info = 1, name_info = ''develop-1'', tag = []\<rparr>],
                                 [Some ''develop'']))"
    unfolding sel .
  with lst names show ?thesis by (intro conjI)
qed

theorem checkReleaseName_called_once_per_non_draft_witness:
  "listReleases drafted_octokit ''tester'' ''testing'' 1 100
     = Inr [develop_3, develop_2, develop_1]
   \<and> draft develop_3 \<and> \<not> draft develop_2 \<and> \<not> draft develop_1
   \<and> (\<exists>evs out. fetchAndFilterReleases 1 drafted_octokit develop_inputs []
                   = Some (evs, Inr (out, [Some ''develop'']))
         \<and> filter is_CheckReleaseName evs
             = [CheckReleaseName ''develop-2'', CheckReleaseName ''develop-1''])"
proof -
  have h0: "[ [develop_3, develop_2, develop_1] ] \<noteq> []" by simp
  have h5: "length [ [develop_3, develop_2, develop_1] ] \<le> 1" by simp
  have names: "map CheckReleaseName (map name_rel
                 (filter (\<lambda>r. \<not> draft r) (concat [ [develop_3, develop_2, develop_1] ])))
               = [CheckReleaseName ''develop-2'', CheckReleaseName ''develop-1'']"
    by (simp add: develop_3_def develop_2_def develop_1_def)
  have lst: "listReleases drafted_octokit ''tester'' ''testing'' 1 100
               = Inr [develop_3, develop_2, develop_1]"
    by (simp add: drafted_octokit_def)
  have d: "draft develop_3" "\<not> draft develop_2" "\<not> draft develop_1"
    by (simp_all add: develop_3_def develop_2_def develop_1_def)
  from checkReleaseName_called_once_per_non_draft
         [OF h0 drafted_pages(1) drafted_pages(2) drafted_pages(3) h5 drafted_answers]
  have "\<exists>evs out. fetchAndFilterReleases 1 drafted_octokit develop_inputs []
                   = Some (evs, Inr (out, [Some ''develop'']))
         \<and> filter is_CheckReleaseName evs
             = [CheckReleaseName ''develop-2'', CheckReleaseName ''develop-1'']"
    unfolding names .
  with lst d show ?thesis by (intro conjI)
qed

theorem fetchAndFilterReleases_page_requests_witness:
  "listReleases drafted_octokit ''tester'' ''testing'' 1 100
     = Inr [develop_3, develop_2, develop_1]
   \<and> length [develop_3, develop_2, develop_1] \<noteq> (100::nat)
   \<and> (\<exists>evs out. fetchAndFilterReleases 1 drafted_octokit develop_inputs []
                   = Some (evs, Inr out)
         \<and> filter is_ListReleases evs = [ListReleases ''tester'' ''testing'' 1 100])"
proof -
  have h0: "[ [develop_3, develop_2, develop_1] ] \<noteq> []" by simp
  have h5: "length [ [develop_3, develop_2, develop_1] ] \<le> 1" by simp
  have reqs: "map (\<lambda>p. ListReleases (owner develop_inputs) (repo develop_inputs) p 100)
                [1..<Suc (length [ [develop_3, develop_2, develop_1] ])]
              = [ListReleases ''tester'' ''testing'' 1 100]"
    by (simp add: develop_inputs_def)
  have lst: "listReleases drafted_octokit ''tester'' ''testing'' 1 100
               = Inr [develop_3, develop_2, develop_1]"
    by (simp add: drafted_octokit_def)
  have short: "length [develop_3, develop_2, develop_1] \<noteq> (100::nat)" by simp
  from fetchAndFilterReleases_page_requests
         [OF h0 drafted_pages(1) drafted_pages(2) drafted_pages(3) h5 drafted_answers,
          THEN conjunct1]
  have "\<exists>evs out. fetchAndFilterReleases 1 drafted_octokit develop_inputs []
                   = Some (evs, Inr out)
         \<and> filter is_ListReleases evs = [ListReleases ''tester'' ''testing'' 1 100]"
    unfolding reqs .
  with lst short show ?thesis by (intro conjI)
qed

section \<open>The remover\<close>

lemma deleteReleases_dryRun:
  "dryRun inputs \<Longrightarrow> deleteReleases octo releases inputs = ([], None)"
  by (induction releases) auto

lemma deleteReleases_all:
  assumes "\<not> dryRun inputs"
    and "\<forall>r\<in>set releases.
           deleteRelease octo (owner inputs) (repo inputs) (id_info r) = None
           \<and> (deleteTags inputs \<longrightarrow>
                deleteRef octo (owner inputs) (repo inputs) (''tags/'' @ tag r) = None)"
  shows "deleteReleases octo releases inputs
           = (concat (map (\<lambda>r. DeleteRelease (owner inputs) (repo inputs) (id_info r)
                               # (if deleteTags inputs
                                  then [DeleteRef (owner inputs) (repo inputs) (''tags/'' @ tag r)]
                                  else [])) releases), None)"
  using assms by (induction releases) auto

lemma deleteReleases_prefix:
  assumes "\<not> dryRun inputs"
  shows "(\<exists>k. fst (deleteReleases octo releases inputs)
                 = take k (concat (map (\<lambda>r. DeleteRelease (owner inputs) (repo inputs) (id_info r)
                               # (if deleteTags inputs
                                  then [DeleteRef (owner inputs) (repo inputs) (''tags/'' @ tag r)]
                                  else [])) releases)))
         \<and> (snd (deleteReleases octo releases inputs) = None \<longrightarrow>
              fst (deleteReleases octo releases inputs)
                = concat (map (\<lambda>r. DeleteRelease (owner inputs) (repo inputs) (id_info r)
                               # (if deleteTags inputs
                                  then [DeleteRef (owner inputs) (repo inputs) (''tags/'' @ tag r)]
                                  else [])) releases))"
proof (induction releases)
  case Nil
  then show ?case by simp
next
  case (Cons r rs)
  let ?plan = "concat (map (\<lambda>r. DeleteRelease (owner inputs) (repo inputs) (id_info r)
                               # (if deleteTags inputs
                                  then [DeleteRef (owner inputs) (repo inputs) (''tags/'' @ tag r)]
                                  else [])) rs)"
  from Cons.IH obtain k where
    k: "fst (deleteReleases octo rs inputs) = take k ?plan" and
    full: "snd (deleteReleases octo rs inputs) = None \<longrightarrow>
             fst (deleteReleases octo rs inputs) = ?plan"
    apply (elim conjE exE)
    apply (erule meta_allE)
    apply (erule meta_impE)
    apply assumption
    apply (erule meta_impE)
    apply assumption
    apply assumption
    done
  obtain evs out where rest: "deleteReleases octo rs inputs = (evs, out)"
    by (cases "deleteReleases octo rs inputs")
  show ?case
  proof (cases "deleteRelease octo (owner inputs) (repo inputs) (id_info r)")
    case (Some err)
    then show ?thesis using assms by (auto intro: exI [of _ 1])
  next
    case None
    show ?thesis
    proof (cases "deleteTags inputs")
      case False
      have "fst (deleteReleases octo (r # rs) inputs)
              = take (Suc k) (DeleteRelease (owner inputs) (repo inputs) (id_info r) # ?plan)"
        using assms None False rest k by simp
      then show ?thesis using assms None False rest full
        by (auto intro: exI [of _ "Suc k"])
    next
      case True
      show ?thesis
      proof (cases "deleteRef octo (owner inputs) (repo inputs) (''tags/'' @ tag r)")
        case (Some err)
        then show ?thesis using assms None True by (auto intro: exI [of _ 2])
      next
        case None2: None
        have "fst (deleteReleases octo (r # rs) inputs)
                = take (Suc (Suc k))
                    (DeleteRelease (owner inputs) (repo inputs) (id_info r)
                       # DeleteRef (owner inputs) (repo inputs) (''tags/'' @ tag r) # ?plan)"
          using assms None True None2 rest k by simp
        then show ?thesis using assms None True None2 rest full
          by (auto intro: exI [of _ "Suc (Suc k)"])
      qed
    qed
  qed
qed

text \<open>
  C8. With \<^verbatim>\<open>dryRun\<close> the remover makes no call, however many releases the list holds.
  Otherwise the calls it has in mind are, for each release in list order, one
  release deletion with \<^verbatim>\<open>(owner, repo, id)\<close>, followed exactly when \<^verbatim>\<open>deleteTags\<close>
  is set by one tag deletion with the ref \<^verbatim>\<open>tags/\<close> and the tag, before the next release
  is taken up. The calls it makes are these, all of them when no call throws, and those
  up to the first call that throws otherwise.
\<close>

theorem deleteReleases_call_sequence:
  "(dryRun inputs \<longrightarrow> deleteReleases octo releases inputs = ([], None))
   \<and> (\<not> dryRun inputs
        \<and> (\<forall>r\<in>set releases.
              deleteRelease octo (owner inputs) (repo inputs) (id_info r) = None
              \<and> (deleteTags inputs \<longrightarrow>
                   deleteRef octo (owner inputs) (repo inputs) (''tags/'' @ tag r) = None)) \<longrightarrow>
        deleteReleases octo releases inputs
          = (concat (map (\<lambda>r. DeleteRelease (owner inputs) (repo inputs) (id_info r)
                               # (if deleteTags inputs
                                  then [DeleteRef (owner inputs) (repo inputs) (''tags/'' @ tag r)]
                                  else [])) releases), None))
   \<and> (\<not> dryRun inputs \<longrightarrow>
        (\<exists>k. fst (deleteReleases octo releases inputs)
                = take k (concat (map (\<lambda>r. DeleteRelease (owner inputs) (repo inputs) (id_info r)
                               # (if deleteTags inputs
                                  then [DeleteRef (owner inputs) (repo inputs) (''tags/'' @ tag r)]
                                  else [])) releases)))
        \<and> (snd (deleteReleases octo releases inputs) = None \<longrightarrow>
             fst (deleteReleases octo releases inputs)
               = concat (map (\<lambda>r. DeleteRelease (owner inputs) (repo inputs) (id_info r)
                               # (if deleteTags inputs
                                  then [DeleteRef (owner inputs) (repo inputs) (''tags/'' @ tag r)]
                                  else [])) releases)))"
  using deleteReleases_dryRun [of inputs octo releases]
        deleteReleases_all [of inputs releases octo]
        deleteReleases_prefix [of inputs octo releases]
  by blast

theorem deleteReleases_call_sequence_witness:
  "deleteReleases develop_octokit
     [\<lparr>id_info = 1, name_info = ''one'', tag = ''develop-1''\<rparr>,
      \<lparr>id_info = 2, name_info = ''two'', tag = ''develop-2''\<rparr>]
     (develop_inputs\<lparr>deleteTags := True\<rparr>)
     = ([DeleteRelease ''tester'' ''testing'' 1, DeleteRef ''tester'' ''testing'' ''tags/develop-1'',
         DeleteRelease ''tester'' ''testing'' 2, DeleteRef ''tester'' ''testing'' ''tags/develop-2''],
        None)
   \<and> deleteReleases develop_octokit
     [\<lparr>id_info = 1, name_info = ''one'', tag = ''develop-1''\<rparr>,
      \<lparr>id_info = 2, name_info = ''two'', tag = ''develop-2''\<rparr>]
     develop_inputs
     = ([DeleteRelease ''tester'' ''testing'' 1, DeleteRelease ''tester'' ''testing'' 2], None)
   \<and> deleteReleases develop_octokit
     [\<lparr>id_info = 1, name_info = ''one'', tag = ''develop-1''\<rparr>,
      \<lparr>id_info = 2, name_info = ''two'', tag = ''develop-2''\<rparr>]
     (develop_inputs\<lparr>deleteTags := True, dryRun := True\<rparr>)
     = ([], None)"
  using deleteReleases_call_sequence
          [of "develop_inputs\<lparr>deleteTags := True\<rparr>" develop_octokit
              "[\<lparr>id_info = 1, name_info = ''one'', tag = ''develop-1''\<rparr>,
                \<lparr>id_info = 2, name_info = ''two'', tag = ''develop-2''\<rparr>]"]
        deleteReleases_call_sequence
          [of develop_inputs develop_octokit
              "[\<lparr>id_info = 1, name_info = ''one'', tag = ''develop-1''\<rparr>,
                \<lparr>id_info = 2, name_info = ''two'', tag = ''develop-2''\<rparr>]"]
        deleteReleases_call_sequence
          [of "develop_inputs\<lparr>deleteTags := True, dryRun := True\<rparr>" develop_octokit
              "[\<lparr>id_info = 1, name_info = ''one'', tag = ''develop-1''\<rparr>,
                \<lparr>id_info = 2, name_info = ''two'', tag = ''develop-2''\<rparr>]"]
  by (simp add: develop_inputs_def develop_octokit_def)

section \<open>Configuration errors and the top-level handler\<close>

lemma startsWith_iff: "startsWith s p = (\<exists>b. s = p @ b)"
proof
  assume "startsWith s p"
  then have "s = p @ drop (length p) s"
    by (metis append_take_drop_id startsWith_def)
  then show "\<exists>b. s = p @ b" ..
next
  assume "\<exists>b. s = p @ b"
  then show "startsWith s p" by (auto simp: startsWith_def)
qed

lemma indexOf_from_absent:
  "0 \<le> i \<Longrightarrow> (indexOf_from s p i = - 1) = (\<not> (\<exists>a b. s = a @ p @ b))"
proof (induction s arbitrary: i)
  case Nil
  then show ?case by auto
next
  case (Cons c cs)
  show ?case
  proof (cases "startsWith (c # cs) p")
    case True
    then obtain b where "c # cs = [] @ p @ b" by (auto simp: startsWith_iff)
    then have "\<exists>a b. c # cs = a @ p @ b" by blast
    then show ?thesis using True Cons.prems by simp
  next
    case False
    have "(\<exists>a b. c # cs = a @ p @ b) = (\<exists>a b. cs = a @ p @ b)"
    proof
      assume "\<exists>a b. c # cs = a @ p @ b"
      then obtain a b where ab: "c # cs = a @ p @ b" by blast
      show "\<exists>a b. cs = a @ p @ b"
      proof (cases a)
        case Nil
        then have "startsWith (c # cs) p" using ab by (auto simp: startsWith_iff)
        then show ?thesis using False by simp
      next
        case (Cons x a')
        then have "cs = a' @ p @ b" using ab by simp
        then show ?thesis by blast
      qed
    next
      assume "\<exists>a b. cs = a @ p @ b"
      then obtain a b where "cs = a @ p @ b" by blast
      then have "c # cs = (c # a) @ p @ b" by simp
      then show "\<exists>a b. c # cs = a @ p @ b" by blast
    qed
    moreover have "(indexOf_from cs p (i + 1) = - 1) = (\<not> (\<exists>a b. cs = a @ p @ b))"
      using Cons.IH [of "i + 1"] Cons.prems by simp
    ultimately show ?thesis using False by simp
  qed
qed

lemma indexOf_absent: "(indexOf s p = - 1) = (\<not> (\<exists>a b. s = a @ p @ b))"
  by (simp add: indexOf_def indexOf_from_absent)

lemma run_parse_error:
  "parseInputs e = Inl err \<Longrightarrow> run fuel e getOctokit = Some [SetFailed (message err)]"
  by (simp add: run_def)

lemma parseInputs_rejects:
  assumes "getInput e ''keep-latest-releases'' = Some ''true''"
    and "\<not> truthy (getInput e ''regex'')
         \<or> (\<exists>r. getInput e ''regex'' = Some r \<and> \<not> (\<exists>a b. r = a @ ''(?<group>'' @ b))"
  shows "(\<exists>err. context_repo e = Inl err \<and> parseInputs e = Inl err)
         \<or> (\<exists>text. parseInputs e = Inl (ThrownString text))"
proof (cases "context_repo e")
  case (Inl err)
  then show ?thesis by (simp add: parseInputs_def)
next
  case (Inr cr)
  obtain ow rp where cr: "cr = (ow, rp)" by (cases cr)
  show ?thesis
  proof (cases "truthy (getInput e ''regex'')")
    case False
    then show ?thesis using assms(1) Inr cr by (simp add: parseInputs_def Let_def)
  next
    case True
    with assms(2) obtain r where r: "getInput e ''regex'' = Some r"
      and absent: "\<not> (\<exists>a b. r = a @ ''(?<group>'' @ b)"
      by blast
    have "indexOf r ''(?<group>'' = - 1"
      using absent by (simp only: indexOf_absent) simp
    then show ?thesis using assms(1) Inr cr r True by (simp add: parseInputs_def Let_def)
  qed
qed

text \<open>
  C5, as the code has it. When keep-latest-releases is requested and either no regex is
  configured (absent or empty) or the text of the regex does not contain \<^verbatim>\<open>(?<group>\<close>,
  \<^verbatim>\<open>parseInputs\<close> throws, and the run consists of the failure signal alone: no
  release is listed or deleted. Unless reading the repository itself failed, what is
  thrown is one of the two texts of the validation, as a string.
\<close>

theorem keep_latest_without_group_text_fails_before_network:
  assumes "getInput e ''keep-latest-releases'' = Some ''true''"
    and "\<not> truthy (getInput e ''regex'')
         \<or> (\<exists>r. getInput e ''regex'' = Some r \<and> \<not> (\<exists>a b. r = a @ ''(?<group>'' @ b))"
  shows "(\<exists>err. parseInputs e = Inl err
            \<and> run fuel e getOctokit = Some [SetFailed (message err)])
         \<and> (\<forall>cr. context_repo e = Inr cr \<longrightarrow> (\<exists>text. parseInputs e = Inl (ThrownString text)))"
proof -
  from parseInputs_rejects [OF assms]
  have fails: "\<exists>err. parseInputs e = Inl err" by blast
  then obtain err where err: "parseInputs e = Inl err" ..
  have "run fuel e getOctokit = Some [SetFailed (message err)]"
    using err by (rule run_parse_error)
  with err have first: "\<exists>err. parseInputs e = Inl err
            \<and> run fuel e getOctokit = Some [SetFailed (message err)]"
    by blast
  have second: "\<forall>cr. context_repo e = Inr cr \<longrightarrow> (\<exists>text. parseInputs e = Inl (ThrownString text))"
    using parseInputs_rejects [OF assms] by auto
  from first second show ?thesis ..
qed

theorem keep_latest_without_group_text_fails_before_network_witness:
  "getInput (stub_env [(''keep-latest-releases'', ''true''),
                       (''regex'', ''.*-'' @ [CHR 0x5C] @ ''d+$'')]
               empty_pattern (Inr now_ms)) ''keep-latest-releases'' = Some ''true''
   \<and> indexOf (''.*-'' @ [CHR 0x5C] @ ''d+$'') ''(?<group>'' = - 1
   \<and> (\<exists>text. parseInputs (stub_env [(''keep-latest-releases'', ''true''),
                                     (''regex'', ''.*-'' @ [CHR 0x5C] @ ''d+$'')]
                             empty_pattern (Inr now_ms)) = Inl (ThrownString text))
   \<and> (\<exists>m. run 5 (stub_env [(''keep-latest-releases'', ''true''),
                             (''regex'', ''.*-'' @ [CHR 0x5C] @ ''d+$'')]
                     empty_pattern (Inr now_ms)) (\<lambda>t. Inr develop_octokit)
             = Some [SetFailed m])"
proof -
  let ?e = "stub_env [(''keep-latest-releases'', ''true''),
                      (''regex'', ''.*-'' @ [CHR 0x5C] @ ''d+$'')]
              empty_pattern (Inr now_ms)"
  have h1: "getInput ?e ''keep-latest-releases'' = Some ''true''"
    by (simp add: stub_env_def)
  have ix: "indexOf (''.*-'' @ [CHR 0x5C] @ ''d+$'') ''(?<group>'' = - 1"
    by (simp add: indexOf_def startsWith_def)
  have absent: "\<not> (\<exists>a b. ''.*-'' @ [CHR 0x5C] @ ''d+$'' = a @ ''(?<group>'' @ b)"
    using ix unfolding indexOf_absent .
  have h2: "\<not> truthy (getInput ?e ''regex'')
            \<or> (\<exists>r. getInput ?e ''regex'' = Some r \<and> \<not> (\<exists>a b. r = a @ ''(?<group>'' @ b))"
    using absent by (simp add: stub_env_def)
  have cr: "context_repo ?e = Inr (''tester'', ''testing'')"
    by (simp add: stub_env_def)
  note inst = keep_latest_without_group_text_fails_before_network
               [OF h1 h2, of 5 "\<lambda>t. Inr develop_octokit"]
  have a: "\<exists>text. parseInputs ?e = Inl (ThrownString text)"
    using inst cr by blast
  have b: "\<exists>m. run 5 ?e (\<lambda>t. Inr develop_octokit) = Some [SetFailed m]"
    using inst by blast
  from h1 ix a b show ?thesis by (intro conjI)
qed

text \<open>
  C5, as the specification states it, fails. The pattern text \<^verbatim>\<open>[(?<group>]\<close> is a
  character class and contains no capture group named \<^verbatim>\<open>group\<close>, but it contains the
  characters \<^verbatim>\<open>(?<group>\<close>: with keep-latest-releases requested \<^verbatim>\<open>parseInputs\<close> accepts
  it, the listing is requested, and the run fails only when the predicate reads the
  group of the first name.
\<close>

theorem class_pattern_passes_validation:
  "getInput (stub_env [(''regex'', class_src), (''max-age'', ''P1W''),
                       (''keep-latest-releases'', ''true'')]
               class_pattern (Inr week_before_now)) ''keep-latest-releases'' = Some ''true''
   \<and> getInput (stub_env [(''regex'', class_src), (''max-age'', ''P1W''),
                          (''keep-latest-releases'', ''true'')]
                  class_pattern (Inr week_before_now)) ''regex'' = Some class_src
   \<and> \<not> hasGroupNamedGroup class_src
   \<and> (\<exists>inputs. parseInputs (stub_env [(''regex'', class_src), (''max-age'', ''P1W''),
                                       (''keep-latest-releases'', ''true'')]
                               class_pattern (Inr week_before_now)) = Inr (inputs, []))
   \<and> run 1 (stub_env [(''regex'', class_src), (''max-age'', ''P1W''),
                       (''keep-latest-releases'', ''true'')]
               class_pattern (Inr week_before_now)) (\<lambda>t. Inr develop_octokit)
       = Some [ListReleases ''tester'' ''testing'' 1 100, CheckReleaseName ''develop-2'',
               SetFailed (Some ''Cannot read properties of undefined (reading 'group')'')]"
  by (simp add: stub_env_def class_src_def hasGroupNamedGroup_def startsWith_def
      parseInputs_def indexOf_def run_def fetchAndFilterReleases_def develop_octokit_def
      develop_2_def develop_1_def per_page_def checkReleaseName_def class_pattern_def
      test_def match_def)

text \<open>
  C7 does not hold of the code. With keep-latest-releases requested and no regex,
  \<^verbatim>\<open>parseInputs\<close> throws the string that names the missing regex; a string has no
  \<^verbatim>\<open>message\<close>, so the handler passes \<^verbatim>\<open>undefined\<close> to \<^verbatim>\<open>core.setFailed\<close> and the
  text is lost. The same holds of the second text of the validation.
\<close>

theorem thrown_string_is_reported_without_text:
  "parseInputs (stub_env [(''keep-latest-releases'', ''true'')] empty_pattern (Inr now_ms))
     = Inl (ThrownString
              ''When using the keep-latest-releases option, a regex input is required.'')
   \<and> run fuel (stub_env [(''keep-latest-releases'', ''true'')] empty_pattern (Inr now_ms))
         getOctokit
       = Some [SetFailed None]
   \<and> run fuel (stub_env [(''keep-latest-releases'', ''true''),
                          (''regex'', ''.*-'' @ [CHR 0x5C] @ ''d+$'')]
                 empty_pattern (Inr now_ms)) getOctokit
       = Some [SetFailed None]"
  by (simp add: run_def parseInputs_def stub_env_def indexOf_def startsWith_def)










end
